theory Spec2Isabelle
  imports Main "HOL-Library.Sublist" "HOL-Library.Char_ord" "HOL-Library.List_Lexorder"
begin

section \<open>Retrieval context: \<^verbatim>\<open>app/rag_utils.py\<close>\<close>

text \<open>
  A Python \<^verbatim>\<open>str\<close> is modelled as a \<^typ>\<open>string\<close>, one \<^typ>\<open>char\<close> per character.

  An exception is a value, \<open>Raised name\<close> with the name of its class, a subclass of
  \<^verbatim>\<open>Exception\<close> (what \<^verbatim>\<open>except Exception\<close> catches). The source defines no exception class and
  has no \<^verbatim>\<open>raise\<close> statement: an exception comes from a collaborator (the vector store, the
  file system, the console) or from an index out of range.
\<close>

datatype exn = Raised string

text \<open>
  \<^verbatim>\<open>langchain_core.documents.Document\<close>: the source reads and writes only the field
  \<^verbatim>\<open>page_content\<close>.
\<close>

record document =
  page_content :: string

text \<open>
  The \<^verbatim>\<open>vectordb\<close> argument of \<^verbatim>\<open>retrieve_rag_context\<close> is duck-typed: any object with a
  method \<^verbatim>\<open>similarity_search(query, k=k)\<close> that returns a sequence of documents or raises.
\<close>

record vectorstore =
  similarity_search :: "string \<Rightarrow> int \<Rightarrow> exn + document list"

text \<open>
  \<^verbatim>\<open>sep.join(xs)\<close>: the items in order, the separator between each two neighbours.
\<close>

fun str_join :: "string \<Rightarrow> string list \<Rightarrow> string" where
  "str_join sep [] = []"
| "str_join sep [x] = x"
| "str_join sep (x # y # ys) = x @ sep @ str_join sep (y # ys)"

text \<open>
  \<^verbatim>\<open>
  def retrieve_rag_context(vectordb, query: str, k: int = 5):
      results = vectordb.similarity_search(query, k=k)
      return "\n\n".join([r.page_content for r in results])
  \<close>
  An exception of the search propagates; there is no other statement that can fail.
\<close>

definition retrieve_rag_context :: "vectorstore \<Rightarrow> string \<Rightarrow> int \<Rightarrow> exn + string" where
  "retrieve_rag_context vectordb query k =
     (case similarity_search vectordb query k of
        Inl e \<Rightarrow> Inl e
      | Inr results \<Rightarrow> Inr (str_join ''\<newline>\<newline>'' (map page_content results)))"

text \<open>
  The split step of \<^verbatim>\<open>create_rag_vectorstore\<close>:
  \<^verbatim>\<open>
      text_splitter = RecursiveCharacterTextSplitter(chunk_size=1200, chunk_overlap=200)
      docs = [Document(page_content=t) for t in code_texts]
      split_docs = text_splitter.split_documents(docs)
  \<close>
  The splitter is a class of a third-party library; its construction with a chunk size and
  an overlap, followed by \<^verbatim>\<open>split_documents\<close>, is the parameter \<open>split_documents\<close>. The
  source always passes 1200 and 200.
\<close>

definition split_code_texts ::
  "(int \<Rightarrow> int \<Rightarrow> document list \<Rightarrow> exn + document list) \<Rightarrow> string list \<Rightarrow> exn + document list"
where
  "split_code_texts split_documents code_texts =
     split_documents 1200 200 (map (\<lambda>t. \<lparr>page_content = t\<rparr>) code_texts)"

text \<open>
  A store for concrete runs: it answers every query, for every \<open>k\<close>, with the given
  documents.
\<close>

definition const_store :: "document list \<Rightarrow> vectorstore" where
  "const_store results = \<lparr>similarity_search = (\<lambda>query k. Inr results)\<rparr>"


section \<open>Text primitives of Python used by \<^verbatim>\<open>app/code_parser.py\<close>\<close>

text \<open>
  Characters are the 256 values of \<^typ>\<open>char\<close>, read as the code points U+0000 to
  U+00FF. \<open>py_isspace\<close> is \<^verbatim>\<open>str.isspace\<close> on one character (the characters that
  \<^verbatim>\<open>str.strip()\<close> removes and that \<^verbatim>\<open>\s\<close> matches), and \<open>py_isword\<close> is the class
  \<^verbatim>\<open>\w\<close> of a \<^verbatim>\<open>str\<close> pattern (alphanumeric or underscore), both on that range.
\<close>

definition py_isspace :: "char \<Rightarrow> bool" where
  "py_isspace c = ((of_char c :: nat) \<in> {9, 10, 11, 12, 13, 28, 29, 30, 31, 32, 133, 160})"

definition py_isword :: "char \<Rightarrow> bool" where
  "py_isword c =
     (let n = (of_char c :: nat) in
        (48 \<le> n \<and> n \<le> 57) \<or> (65 \<le> n \<and> n \<le> 90) \<or> (97 \<le> n \<and> n \<le> 122) \<or> n = 95
        \<or> n \<in> {170, 178, 179, 181, 185, 186, 188, 189, 190}
        \<or> (192 \<le> n \<and> n \<le> 214) \<or> (216 \<le> n \<and> n \<le> 246) \<or> (248 \<le> n \<and> n \<le> 255))"

text \<open>\<^verbatim>\<open>s.strip()\<close>: whitespace removed at both ends.\<close>

definition py_strip :: "string \<Rightarrow> string" where
  "py_strip s = rev (dropWhile py_isspace (rev (dropWhile py_isspace s)))"

text \<open>
  \<^verbatim>\<open>s.upper()\<close>. The source applies it only to a text matched by an alternation of
  ASCII words, so the model is the upper case of ASCII letters; other characters stay.
\<close>

definition ascii_upper :: "char \<Rightarrow> char" where
  "ascii_upper c =
     (if CHR ''a'' \<le> c \<and> c \<le> CHR ''z'' then char_of (of_char c - (32::nat)) else c)"

definition py_upper :: "string \<Rightarrow> string" where
  "py_upper s = map ascii_upper s"

text \<open>
  \<^verbatim>\<open>s.replace(old, new)\<close>: every occurrence of \<open>old\<close>, found from the left and
  not overlapping, becomes \<open>new\<close>; an empty \<open>old\<close> matches before every character and
  at the end.
\<close>

function str_replace :: "string \<Rightarrow> string \<Rightarrow> string \<Rightarrow> string" where
  "str_replace old new s =
     (if old = [] then new @ concat (map (\<lambda>c. c # new) s)
      else if prefix old s then new @ str_replace old new (drop (length old) s)
      else (case s of [] \<Rightarrow> [] | c # cs \<Rightarrow> c # str_replace old new cs))"
  by pat_completeness auto
termination
  by (relation "measure (\<lambda>(old, new, s). length s)") (auto simp: prefix_def)

declare str_replace.simps [simp del]

text \<open>\<^verbatim>\<open>filename.endswith(ext)\<close>.\<close>

definition endswith :: "string \<Rightarrow> string \<Rightarrow> bool" where
  "endswith s ext = suffix ext s"

text \<open>A sequence of evaluations stops at the first exception.\<close>

fun collect :: "(exn + 'a) list \<Rightarrow> exn + 'a list" where
  "collect [] = Inr []"
| "collect (Inl e # rs) = Inl e"
| "collect (Inr x # rs) = (case collect rs of Inl e \<Rightarrow> Inl e | Inr xs \<Rightarrow> Inr (x # xs))"


section \<open>File extraction: \<^verbatim>\<open>extract_code_files\<close>\<close>

definition BINARY_EXTENSIONS :: "string list" where
  "BINARY_EXTENSIONS =
     [''.exe'', ''.dll'', ''.so'', ''.bin'', ''.class'', ''.jar'', ''.pyc'', ''.pyo'',
      ''.zip'', ''.tar'', ''.gz'', ''.png'', ''.jpg'', ''.jpeg'', ''.gif'']"

text \<open>
  \<^verbatim>\<open>
  def is_text_file(filename: str) -> bool:
      return not any(filename.endswith(ext) for ext in BINARY_EXTENSIONS)
  \<close>
\<close>

definition is_text_file :: "string \<Rightarrow> bool" where
  "is_text_file filename = (\<not> list_ex (\<lambda>ext. endswith filename ext) BINARY_EXTENSIONS)"

text \<open>
  The four messages that the function prints, with the values formatted into them:
  \<^verbatim>\<open>
  print(f"... Repo path does not exist: {repo_path}")
  print(f"... Skipping large file: {file_path} ({size_mb:.2f} MB)")
  print(f"... Failed to read {file_path}: {e}")
  print(f"... Total code/text files found: {len(code_files)}")
  \<close>
  Each starts with an emoji, a character outside ASCII and outside Latin-1.
\<close>

datatype message =
    RepoMissing string
  | SkippingLarge string nat
  | FailedToRead string exn
  | TotalFound nat

text \<open>
  The environment, as the function sees it through \<^verbatim>\<open>os\<close>, \<^verbatim>\<open>open\<close> and \<^verbatim>\<open>print\<close>:
  \<^verbatim>\<open>os.path.exists\<close>, \<^verbatim>\<open>os.walk\<close> (the triples \<open>(root, dirs, files)\<close> in the order of the
  walk), \<^verbatim>\<open>os.path.getsize\<close> (a size in bytes, or an exception),
  \<^verbatim>\<open>open(p, "r", encoding="utf-8", errors="ignore").read()\<close> (the decoded text, or an
  exception) and \<^verbatim>\<open>print\<close> on the standard output (\<open>None\<close> when the message is written,
  \<open>Some e\<close> when the write raises, as \<^verbatim>\<open>UnicodeEncodeError\<close> does on an output whose
  encoding has no emoji).
\<close>

record filesystem =
  os_path_exists :: "string \<Rightarrow> bool"
  os_walk :: "string \<Rightarrow> (string \<times> string list \<times> string list) list"
  os_path_getsize :: "string \<Rightarrow> exn + nat"
  open_read :: "string \<Rightarrow> exn + string"
  py_print :: "message \<Rightarrow> exn option"

text \<open>\<^verbatim>\<open>os.path.join(a, b)\<close> of \<^verbatim>\<open>posixpath\<close>.\<close>

definition os_path_join :: "string \<Rightarrow> string \<Rightarrow> string" where
  "os_path_join a b =
     (if prefix ''/'' b then b
      else if a = [] \<or> endswith a ''/'' then a @ b
      else a @ ''/'' @ b)"

text \<open>The dictionary \<^verbatim>\<open>{"path": file_path, "content": content}\<close>.\<close>

record code_file =
  path :: string
  content :: string

text \<open>
  A \<^verbatim>\<open>print\<close> statement followed by the rest of the block: an exception of the print
  is the result, otherwise the rest.
\<close>

definition print_then :: "filesystem \<Rightarrow> message \<Rightarrow> (exn + 'a) \<Rightarrow> exn + 'a" where
  "print_then fs msg rest = (case py_print fs msg of Some e \<Rightarrow> Inl e | None \<Rightarrow> rest)"

text \<open>
  The block under \<^verbatim>\<open>try\<close>, for the file at \<open>file_path\<close>: the entries it appends to
  \<^verbatim>\<open>code_files\<close> (none or one), or the exception that reaches the handler.
  \<^verbatim>\<open>
                size_mb = os.path.getsize(file_path) / (1024*1024)
                if size_mb > max_file_size_mb:
                    print(f"... Skipping large file: {file_path} ({size_mb:.2f} MB)")
                    continue
                with open(file_path, "r", encoding="utf-8", errors="ignore") as file:
                    content = file.read().strip()
                    if content:
                        code_files.append({"path": file_path, "content": content})
  \<close>
  The division by \<open>1024*1024\<close> is exact in floating point for every size below \<open>2^53\<close>
  bytes, so \<open>size_mb > max_file_size_mb\<close> is the comparison of the size in bytes with
  \<open>max_file_size_mb * 1024 * 1024\<close>.
\<close>

definition try_read :: "filesystem \<Rightarrow> int \<Rightarrow> string \<Rightarrow> exn + code_file list" where
  "try_read fs max_file_size_mb file_path =
     (case os_path_getsize fs file_path of
        Inl e \<Rightarrow> Inl e
      | Inr size_bytes \<Rightarrow>
          if int size_bytes > max_file_size_mb * (1024 * 1024)
          then print_then fs (SkippingLarge file_path size_bytes) (Inr [])
          else case open_read fs file_path of
                 Inl e \<Rightarrow> Inl e
               | Inr text \<Rightarrow>
                   (let content = py_strip text in
                    if content \<noteq> [] then Inr [\<lparr>path = file_path, content = content\<rparr>]
                    else Inr []))"

text \<open>
  The body of the inner loop, for the file \<open>f\<close> of the directory \<open>root\<close>: the entries it
  appends, or the exception that leaves the function. The handler catches every exception
  of the block, also one of the print in it; an exception of the handler's own print is
  not caught.
  \<^verbatim>\<open>
            file_path = os.path.join(root, f)
            if not is_text_file(f):
                continue
            try:
                ...
            except Exception as e:
                print(f"... Failed to read {file_path}: {e}")
                continue
  \<close>
\<close>

definition visit_file :: "filesystem \<Rightarrow> int \<Rightarrow> string \<Rightarrow> string \<Rightarrow> exn + code_file list" where
  "visit_file fs max_file_size_mb root f =
     (let file_path = os_path_join root f in
      if \<not> is_text_file f then Inr []
      else case try_read fs max_file_size_mb file_path of
             Inr entries \<Rightarrow> Inr entries
           | Inl e \<Rightarrow> print_then fs (FailedToRead file_path e) (Inr []))"

text \<open>
  \<^verbatim>\<open>
  def extract_code_files(repo_path: str, max_file_size_mb: int = 5) -> List[Dict]:
      code_files = []
      if not os.path.exists(repo_path):
          print(f"... Repo path does not exist: {repo_path}")
          return code_files
      for root, _, files in os.walk(repo_path):
          for f in files:
              ...
      print(f"... Total code/text files found: {len(code_files)}")
      return code_files
  \<close>
  The two loops visit the files in the order of the walk and stop at the first exception
  that leaves the body.
\<close>

definition extract_code_files :: "filesystem \<Rightarrow> string \<Rightarrow> int \<Rightarrow> exn + code_file list" where
  "extract_code_files fs repo_path max_file_size_mb =
     (if \<not> os_path_exists fs repo_path
      then print_then fs (RepoMissing repo_path) (Inr [])
      else case collect (concat (map (\<lambda>(root, dirs, files).
                                        map (visit_file fs max_file_size_mb root) files)
                                     (os_walk fs repo_path))) of
             Inl e \<Rightarrow> Inl e
           | Inr appended \<Rightarrow>
               (let code_files = concat appended in
                print_then fs (TotalFound (length code_files)) (Inr code_files)))"

text \<open>
  A small repository for concrete runs, on a console that writes every message, and the
  same repository on a console whose encoding has no emoji.
\<close>

definition demo_fs :: filesystem where
  "demo_fs =
     \<lparr>os_path_exists = (\<lambda>p. p = ''repo''),
      os_walk = (\<lambda>p. if p = ''repo''
                      then [(''repo'', [''img''], [''main.py'', ''blank.txt'', ''gone.py'']),
                            (''repo/img'', [], [''logo.png''])]
                      else []),
      os_path_getsize = (\<lambda>p. if p = ''repo/main.py'' then Inr 7
                              else if p = ''repo/blank.txt'' then Inr 3
                              else if p = ''repo/img/logo.png'' then Inr 4
                              else Inl (Raised ''FileNotFoundError'')),
      open_read = (\<lambda>p. if p = ''repo/main.py'' then Inr '' x = 1\<newline>''
                        else if p = ''repo/blank.txt'' then Inr ''  \<newline>''
                        else if p = ''repo/img/logo.png'' then Inr ''\<newline>PNG''
                        else Inl (Raised ''FileNotFoundError'')),
      py_print = (\<lambda>msg. None)\<rparr>"

definition ascii_console_fs :: filesystem where
  "ascii_console_fs = demo_fs\<lparr>py_print := (\<lambda>msg. Some (Raised ''UnicodeEncodeError''))\<rparr>"


section \<open>Regular expressions of \<^verbatim>\<open>extract_endpoints_from_code\<close>\<close>

text \<open>
  The eight patterns of the source are sequences of literal texts, single-character
  classes (once, \<^verbatim>\<open>*\<close> or \<^verbatim>\<open>+\<close>), alternations of literal words, the word boundary
  \<^verbatim>\<open>\b\<close>, and capturing groups around one such item. The matcher below is the
  backtracking search of \<^verbatim>\<open>re\<close> on this fragment: a repetition tries the longest run first
  and then shorter ones, an alternation tries its words in the order written, and the
  first way through the whole pattern is the match.
\<close>

datatype charset = Word | Space | OneOf string | NoneOf string | Either charset charset

fun in_charset :: "charset \<Rightarrow> char \<Rightarrow> bool" where
  "in_charset Word c = py_isword c"
| "in_charset Space c = py_isspace c"
| "in_charset (OneOf cs) c = (c \<in> set cs)"
| "in_charset (NoneOf cs) c = (c \<notin> set cs)"
| "in_charset (Either a b) c = (in_charset a c \<or> in_charset b c)"

datatype atom =
    Lit string
  | One charset
  | Star charset
  | Plus charset
  | Alt "string list"
  | WordBoundary

datatype tok = Plain atom | Group atom

fun atom_of :: "tok \<Rightarrow> atom" where
  "atom_of (Plain a) = a"
| "atom_of (Group a) = a"

fun is_group :: "tok \<Rightarrow> bool" where
  "is_group (Plain a) = False"
| "is_group (Group a) = True"

fun word_at :: "char option \<Rightarrow> bool" where
  "word_at None = False"
| "word_at (Some c) = py_isword c"

fun first_char :: "string \<Rightarrow> char option" where
  "first_char [] = None"
| "first_char (c # cs) = Some c"

text \<open>
  The numbers of characters that an item can consume at the start of \<open>s\<close>, in the order
  in which the search tries them; \<open>prev\<close> is the character before \<open>s\<close> in the text, if
  any.
\<close>

fun choices :: "atom \<Rightarrow> char option \<Rightarrow> string \<Rightarrow> nat list" where
  "choices (Lit l) prev s = (if prefix l s then [length l] else [])"
| "choices (One cs) prev s =
     (case s of [] \<Rightarrow> [] | c # _ \<Rightarrow> if in_charset cs c then [1] else [])"
| "choices (Star cs) prev s = rev [0 ..< Suc (length (takeWhile (in_charset cs) s))]"
| "choices (Plus cs) prev s = rev [1 ..< Suc (length (takeWhile (in_charset cs) s))]"
| "choices (Alt ls) prev s = map length (filter (\<lambda>l. prefix l s) ls)"
| "choices WordBoundary prev s = (if word_at prev \<noteq> word_at (first_char s) then [0] else [])"

fun first_some :: "('a \<Rightarrow> 'b option) \<Rightarrow> 'a list \<Rightarrow> 'b option" where
  "first_some f [] = None"
| "first_some f (x # xs) = (case f x of Some y \<Rightarrow> Some y | None \<Rightarrow> first_some f xs)"

definition prev_after :: "char option \<Rightarrow> string \<Rightarrow> nat \<Rightarrow> char option" where
  "prev_after prev s n = (case rev (take n s) of [] \<Rightarrow> prev | c # _ \<Rightarrow> Some c)"

text \<open>
  A match of the pattern at the start of \<open>s\<close>: the texts of its groups and the number
  of characters of the whole match.
\<close>

fun re_match :: "tok list \<Rightarrow> char option \<Rightarrow> string \<Rightarrow> (string list \<times> nat) option" where
  "re_match [] prev s = Some ([], 0)"
| "re_match (t # ts) prev s =
     first_some
       (\<lambda>n. case re_match ts (prev_after prev s n) (drop n s) of
               None \<Rightarrow> None
             | Some (caps, m) \<Rightarrow> Some ((if is_group t then [take n s] else []) @ caps, n + m))
       (choices (atom_of t) prev s)"

text \<open>
  The scan of \<^verbatim>\<open>re.findall\<close>: the leftmost match, then on from its end; where there is
  no match, on from the next character. Each match gives its groups and its whole text.
  None of the source's patterns matches the empty text; the branch for an empty match
  moves on by one character.
\<close>

function re_scan :: "tok list \<Rightarrow> char option \<Rightarrow> string \<Rightarrow> (string list \<times> string) list" where
  "re_scan toks prev s =
     (case re_match toks prev s of
        Some (caps, n) \<Rightarrow>
          if 0 < n \<and> n \<le> length s
          then (caps, take n s) # re_scan toks (prev_after prev s n) (drop n s)
          else (caps, []) # (case s of [] \<Rightarrow> [] | c # cs \<Rightarrow> re_scan toks (Some c) cs)
      | None \<Rightarrow> (case s of [] \<Rightarrow> [] | c # cs \<Rightarrow> re_scan toks (Some c) cs))"
  by pat_completeness auto
termination
  by (relation "measure (\<lambda>(toks, prev, s). length s)") auto

declare re_scan.simps [simp del]

text \<open>
  The texts that an item can match, and with them the texts that the groups of a pattern
  can capture.
\<close>

fun atom_text :: "atom \<Rightarrow> string \<Rightarrow> bool" where
  "atom_text (Lit l) c = (c = l)"
| "atom_text (One cs) c = (length c = 1 \<and> list_all (in_charset cs) c)"
| "atom_text (Star cs) c = list_all (in_charset cs) c"
| "atom_text (Plus cs) c = (c \<noteq> [] \<and> list_all (in_charset cs) c)"
| "atom_text (Alt ls) c = (c \<in> set ls)"
| "atom_text WordBoundary c = (c = [])"

definition group_texts :: "tok list \<Rightarrow> string list \<Rightarrow> bool" where
  "group_texts toks caps =
     list_all2 (\<lambda>t c. atom_text (atom_of t) c) (filter is_group toks) caps"

text \<open>The least number of characters that an item consumes.\<close>

fun atom_min :: "atom \<Rightarrow> nat" where
  "atom_min (Lit l) = length l"
| "atom_min (One cs) = 1"
| "atom_min (Star cs) = 0"
| "atom_min (Plus cs) = 1"
| "atom_min (Alt ls) = (if ls = [] then 0 else Min (set (map length ls)))"
| "atom_min WordBoundary = 0"

text \<open>
  What \<^verbatim>\<open>re.findall\<close> returns for one match: the whole text when the pattern has no
  group, the text of the group when it has one, the tuple of the groups' texts when it
  has several.
\<close>

datatype match_item = Str string | Tuple "string list"

fun shape :: "string list \<times> string \<Rightarrow> match_item" where
  "shape ([], whole) = Str whole"
| "shape ([g], whole) = Str g"
| "shape (caps, whole) = Tuple caps"

definition re_findall :: "tok list \<Rightarrow> string \<Rightarrow> match_item list" where
  "re_findall toks s = map shape (re_scan toks None s)"

text \<open>
  The class \<^verbatim>\<open>["'`]\<close>: double quote, single quote, backquote; \<open>quoted_path\<close> is the
  common part \<^verbatim>\<open>["'`]([^"'`]+)["'`]\<close>, and \<open>methods\<close> the alternation
  \<^verbatim>\<open>get|post|put|delete|patch\<close>.
\<close>

definition quotes :: string where
  "quotes = [CHR 0x22, CHR 0x27, CHR 0x60]"

definition methods :: "string list" where
  "methods = [''get'', ''post'', ''put'', ''delete'', ''patch'']"

definition quote :: tok where
  "quote = Plain (One (OneOf quotes))"

definition quoted_path :: "tok list" where
  "quoted_path = [quote, Group (Plus (NoneOf quotes)), quote]"

text \<open>\<^verbatim>\<open>py_pattern = r'@[\w_]+\.(get|post|put|delete|patch)\(["\'`]([^"\'`]+)["\'`]\)'\<close>\<close>

definition py_pattern :: "tok list" where
  "py_pattern =
     [Plain (Lit ''@''), Plain (Plus (Either Word (OneOf ''_''))), Plain (Lit ''.''),
      Group (Alt methods), Plain (Lit ''('')] @ quoted_path @ [Plain (Lit '')'')]"

text \<open>\<^verbatim>\<open>js_backend_pattern = r'\b\w+\.(get|post|put|delete|patch)\(\s*[\'"`]([^\'"`]+)[\'"`]'\<close>\<close>

definition js_backend_pattern :: "tok list" where
  "js_backend_pattern =
     [Plain WordBoundary, Plain (Plus Word), Plain (Lit ''.''),
      Group (Alt methods), Plain (Lit ''(''), Plain (Star Space)] @ quoted_path"

text \<open>\<^verbatim>\<open>axios_pattern = r'axios\.(get|post|put|delete|patch)\(\s*[\'"`]([^\'"`]+)[\'"`]'\<close>\<close>

definition axios_pattern :: "tok list" where
  "axios_pattern =
     [Plain (Lit ''axios''), Plain (Lit ''.''),
      Group (Alt methods), Plain (Lit ''(''), Plain (Star Space)] @ quoted_path"

text \<open>\<^verbatim>\<open>fetch_pattern = r'fetch\(\s*[\'"`]([^\'"`]+)[\'"`]'\<close>\<close>

definition fetch_pattern :: "tok list" where
  "fetch_pattern = [Plain (Lit ''fetch''), Plain (Lit ''(''), Plain (Star Space)] @ quoted_path"

text \<open>
  \<^verbatim>\<open>java_pattern = r'@(GetMapping|PostMapping|PutMapping|DeleteMapping|PatchMapping)\(["\'`]([^"\'`]+)["\'`]\)'\<close>
\<close>

definition mappings :: "string list" where
  "mappings = [''GetMapping'', ''PostMapping'', ''PutMapping'', ''DeleteMapping'', ''PatchMapping'']"

definition java_pattern :: "tok list" where
  "java_pattern =
     [Plain (Lit ''@''), Group (Alt mappings), Plain (Lit ''('')]
     @ quoted_path @ [Plain (Lit '')'')]"

text \<open>
  \<^verbatim>\<open>go_pattern = r'\b(router|r|app|api)\.(GET|POST|PUT|DELETE|PATCH)\(["\'`]([^"\'`]+)["\'`]\)'\<close>
\<close>

definition receivers :: "string list" where
  "receivers = [''router'', ''r'', ''app'', ''api'']"

definition METHODS :: "string list" where
  "METHODS = [''GET'', ''POST'', ''PUT'', ''DELETE'', ''PATCH'']"

definition go_pattern :: "tok list" where
  "go_pattern =
     [Plain WordBoundary, Group (Alt receivers), Plain (Lit ''.''),
      Group (Alt METHODS), Plain (Lit ''('')]
     @ quoted_path @ [Plain (Lit '')'')]"

text \<open>\<^verbatim>\<open>ruby_pattern = r'(get|post|put|delete|patch)\s+[\'"`]([^\'"`]+)[\'"`]'\<close>\<close>

definition ruby_pattern :: "tok list" where
  "ruby_pattern = [Group (Alt methods), Plain (Plus Space)] @ quoted_path"

text \<open>\<^verbatim>\<open>php_pattern = r'Route::(get|post|put|delete|patch)\(\s*[\'"`]([^\'"`]+)[\'"`]'\<close>\<close>

definition php_pattern :: "tok list" where
  "php_pattern =
     [Plain (Lit ''Route::''), Group (Alt methods), Plain (Lit ''(''), Plain (Star Space)]
     @ quoted_path"


section \<open>Endpoint extraction: \<^verbatim>\<open>extract_endpoints_from_code\<close>\<close>

text \<open>
  \<^verbatim>\<open>m[i]\<close> on an item of \<^verbatim>\<open>re.findall\<close>: the \<open>i\<close>-th group of a tuple, but the \<open>i\<close>-th
  character of a text; out of range it raises \<^verbatim>\<open>IndexError\<close>.
\<close>

fun item_index :: "match_item \<Rightarrow> nat \<Rightarrow> exn + string" where
  "item_index (Str s) i = (if i < length s then Inr [s ! i] else Inl (Raised ''IndexError''))"
| "item_index (Tuple t) i = (if i < length t then Inr (t ! i) else Inl (Raised ''IndexError''))"

fun and_then :: "exn + 'a \<Rightarrow> ('a \<Rightarrow> exn + 'b) \<Rightarrow> exn + 'b" where
  "and_then (Inl e) f = Inl e"
| "and_then (Inr x) f = f x"

text \<open>\<^verbatim>\<open>lambda m: f"{m[0].upper()} {m[1]}"\<close>\<close>

definition method_path :: "match_item \<Rightarrow> exn + string" where
  "method_path m =
     and_then (item_index m 0) (\<lambda>a. and_then (item_index m 1) (\<lambda>b.
       Inr (py_upper a @ '' '' @ b)))"

text \<open>\<^verbatim>\<open>lambda m: f"GET {m[0]}"\<close>\<close>

definition fetch_get :: "match_item \<Rightarrow> exn + string" where
  "fetch_get m = and_then (item_index m 0) (\<lambda>a. Inr (''GET '' @ a))"

text \<open>\<^verbatim>\<open>lambda m: f"{m[0].replace('Mapping','').upper()} {m[1]}"\<close>\<close>

definition java_mapping :: "match_item \<Rightarrow> exn + string" where
  "java_mapping m =
     and_then (item_index m 0) (\<lambda>a. and_then (item_index m 1) (\<lambda>b.
       Inr (py_upper (str_replace ''Mapping'' [] a) @ '' '' @ b)))"

text \<open>\<^verbatim>\<open>lambda m: f"{m[1].upper()} {m[2]}"\<close>\<close>

definition go_route :: "match_item \<Rightarrow> exn + string" where
  "go_route m =
     and_then (item_index m 1) (\<lambda>a. and_then (item_index m 2) (\<lambda>b.
       Inr (py_upper a @ '' '' @ b)))"

text \<open>
  The form \<^verbatim>\<open>"METHOD path"\<close>: an upper-case HTTP method, one space, and a path that is
  not empty and holds no quote character.
\<close>

definition endpoint_form :: "string \<Rightarrow> bool" where
  "endpoint_form e =
     (\<exists>m p. e = m @ '' '' @ p \<and> m \<in> set METHODS \<and> p \<noteq> [] \<and> set p \<inter> set quotes = {})"

text \<open>The list of \<open>(pattern, transform)\<close> pairs, in the order of the source.\<close>

definition patterns :: "(tok list \<times> (match_item \<Rightarrow> exn + string)) list" where
  "patterns =
     [(py_pattern, method_path),
      (js_backend_pattern, method_path),
      (axios_pattern, method_path),
      (fetch_pattern, fetch_get),
      (java_pattern, java_mapping),
      (go_pattern, go_route),
      (ruby_pattern, method_path),
      (php_pattern, method_path)]"

text \<open>
  One round of the outer loop: for each pair,
  \<^verbatim>\<open>endpoints.extend([transform(m) for m in re.findall(pattern, code)])\<close>.
\<close>

definition scan_code :: "string \<Rightarrow> (exn + string) list" where
  "scan_code code =
     concat (map (\<lambda>(pattern, transform). map transform (re_findall pattern code)) patterns)"

text \<open>
  \<^verbatim>\<open>
      endpoints = list(set(endpoints))
      return sorted(endpoints)
  \<close>
  The order in which a set lists its elements is not fixed, and \<^verbatim>\<open>sorted\<close> does not
  depend on it: \<open>remdups\<close> is one such listing.
\<close>

definition extract_endpoints_from_code :: "string list \<Rightarrow> exn + string list" where
  "extract_endpoints_from_code code_texts =
     (case collect (concat (map scan_code code_texts)) of
        Inl e \<Rightarrow> Inl e
      | Inr endpoints \<Rightarrow> Inr (sort (remdups endpoints)))"


section \<open>Properties of the retrieval context\<close>

lemma str_join_Cons:
  "str_join sep (x # xs) = x @ concat (map (\<lambda>y. sep @ y) xs)"
  by (induction xs arbitrary: x) simp_all

text \<open>
  Claim C4. For every vector store, query and k, when the store's similarity search returns
  a ranked sequence of documents, \<open>retrieve_rag_context\<close> returns (without raising) exactly
  their texts in that order: the first text, then each further text preceded by the
  blank-line separator. When the search returns no entry the result is the empty string.
\<close>

theorem retrieve_rag_context_joins_ranked:
  assumes "similarity_search vectordb query k = Inr results"
  shows "retrieve_rag_context vectordb query k =
           Inr (case map page_content results of
                  [] \<Rightarrow> []
                | t # ts \<Rightarrow> t @ concat (map (\<lambda>u. ''\<newline>\<newline>'' @ u) ts))
         \<and> (results = [] \<longrightarrow> retrieve_rag_context vectordb query k = Inr [])"
  using assms
  by (cases results) (simp_all add: retrieve_rag_context_def str_join_Cons comp_def)

theorem retrieve_rag_context_joins_ranked_witness:
  "similarity_search
     (const_store [\<lparr>page_content = ''def foo(): pass''\<rparr>, \<lparr>page_content = ''class Bar: pass''\<rparr>])
     ''foo function'' 2
     = Inr [\<lparr>page_content = ''def foo(): pass''\<rparr>, \<lparr>page_content = ''class Bar: pass''\<rparr>]
   \<and> retrieve_rag_context
     (const_store [\<lparr>page_content = ''def foo(): pass''\<rparr>, \<lparr>page_content = ''class Bar: pass''\<rparr>])
     ''foo function'' 2
     = Inr ''def foo(): pass\<newline>\<newline>class Bar: pass''"
proof -
  have h: "similarity_search
     (const_store [\<lparr>page_content = ''def foo(): pass''\<rparr>, \<lparr>page_content = ''class Bar: pass''\<rparr>])
     ''foo function'' 2
     = Inr [\<lparr>page_content = ''def foo(): pass''\<rparr>, \<lparr>page_content = ''class Bar: pass''\<rparr>]"
    by (simp add: const_store_def)
  show ?thesis
    using h retrieve_rag_context_joins_ranked [OF h] by simp
qed

text \<open>
  Claim C2, as stated, fails: \<open>retrieve_rag_context\<close> has no check of \<open>k\<close>. On a store
  whose search answers \<open>k = 0\<close> with no entry, the call returns the empty string.
\<close>

theorem retrieve_rag_context_k0_counterexample:
  "retrieve_rag_context (const_store []) ''Project overview'' 0 = Inr []
   \<and> retrieve_rag_context (const_store []) ''Project overview'' 0
       \<noteq> Inl (Raised ''InvalidArgumentError'')"
  by (simp add: retrieve_rag_context_def const_store_def)

text \<open>
  Claim C2, amended. For every vector store and query string, calling
  \<open>retrieve_rag_context\<close> with \<open>k = 0\<close> or a negative \<open>k\<close> hands \<open>k\<close> to the store
  unchecked: the call fails exactly when the store's similarity search fails for that
  \<open>k\<close>, with the exception of the search, and when the search returns documents the call
  returns their joined texts.
\<close>

theorem retrieve_rag_context_nonpositive_k:
  assumes "k \<le> 0"
  shows "(retrieve_rag_context vectordb query k = Inl e
            \<longleftrightarrow> similarity_search vectordb query k = Inl e)
         \<and> (\<forall>results. similarity_search vectordb query k = Inr results \<longrightarrow>
               retrieve_rag_context vectordb query k
                 = Inr (str_join ''\<newline>\<newline>'' (map page_content results)))"
  by (simp add: retrieve_rag_context_def split: sum.splits)

theorem retrieve_rag_context_nonpositive_k_witness:
  "(-1::int) \<le> 0
   \<and> similarity_search (const_store [\<lparr>page_content = ''def foo(): pass''\<rparr>]) ''foo'' (-1)
       = Inr [\<lparr>page_content = ''def foo(): pass''\<rparr>]
   \<and> retrieve_rag_context (const_store [\<lparr>page_content = ''def foo(): pass''\<rparr>]) ''foo'' (-1)
       = Inr ''def foo(): pass''"
proof -
  have h: "(-1::int) \<le> 0" by simp
  have s: "similarity_search (const_store [\<lparr>page_content = ''def foo(): pass''\<rparr>]) ''foo'' (-1)
       = Inr [\<lparr>page_content = ''def foo(): pass''\<rparr>]"
    by (simp add: const_store_def)
  show ?thesis
    using h s
      retrieve_rag_context_nonpositive_k
        [OF h, of "const_store [\<lparr>page_content = ''def foo(): pass''\<rparr>]" "''foo''"
          "Raised ''InvalidArgumentError''"]
    by simp
qed

text \<open>
  A remark on the split step. Whatever the splitter does, these two cannot both hold:
  every text of at most 1200 characters gives exactly one chunk, equal to the text; and
  the empty text gives no chunk. The empty text is a text of at most 1200 characters.
\<close>

lemma short_document_claims_clash:
  "\<not> ((\<forall>t. length t \<le> 1200 \<longrightarrow>
            (\<exists>c. split_code_texts split_documents [t] = Inr [c] \<and> page_content c = t))
       \<and> split_code_texts split_documents [[]] = Inr [])"
proof
  assume a: "(\<forall>t. length t \<le> 1200 \<longrightarrow>
            (\<exists>c. split_code_texts split_documents [t] = Inr [c] \<and> page_content c = t))
       \<and> split_code_texts split_documents [[]] = Inr []"
  then have "length ([] :: string) \<le> 1200 \<longrightarrow>
      (\<exists>c. split_code_texts split_documents [[]] = Inr [c] \<and> page_content c = [])"
    by (rule_tac conjunct1 [THEN spec])
  then obtain c where "split_code_texts split_documents [[]] = Inr [c]" by auto
  with a show False by simp
qed


section \<open>Properties of file extraction\<close>

lemma py_strip_ends:
  "py_strip s \<noteq> [] \<Longrightarrow> \<not> py_isspace (hd (py_strip s)) \<and> \<not> py_isspace (last (py_strip s))"
proof -
  assume ne: "py_strip s \<noteq> []"
  define t where "t = dropWhile py_isspace s"
  define u where "u = dropWhile py_isspace (rev t)"
  have su: "py_strip s = rev u" by (simp add: py_strip_def t_def u_def)
  with ne have une: "u \<noteq> []" by simp
  then have hu: "\<not> py_isspace (hd u)" unfolding u_def by (metis hd_dropWhile)
  have "rev t \<noteq> []" using une u_def by auto
  then have tne: "t \<noteq> []" by simp
  then have ht: "\<not> py_isspace (hd t)" unfolding t_def by (metis hd_dropWhile)
  obtain ws where "rev t = ws @ u" unfolding u_def
    by (metis takeWhile_dropWhile_id)
  then have "t = rev u @ rev ws" by (metis rev_append rev_rev_ident)
  then have "hd t = hd (rev u)" using une by simp
  with ht have "\<not> py_isspace (hd (rev u))" by simp
  moreover have "last (rev u) = hd u" using une by (simp add: last_rev)
  ultimately show ?thesis using hu su by simp
qed

lemma dropWhile_hd_id: "xs \<noteq> [] \<Longrightarrow> \<not> P (hd xs) \<Longrightarrow> dropWhile P xs = xs"
  by (cases xs) auto

lemma py_strip_idem: "py_strip (py_strip s) = py_strip s"
proof (cases "py_strip s = []")
  case True
  have "py_strip [] = []" by (simp add: py_strip_def)
  with True show ?thesis by simp
next
  case False
  define v where "v = py_strip s"
  from py_strip_ends [OF False] have h: "\<not> py_isspace (hd v)"
    and l: "\<not> py_isspace (last v)" by (simp_all add: v_def)
  have vne: "v \<noteq> []" using False v_def by simp
  have 1: "dropWhile py_isspace v = v" using h vne by (rule_tac dropWhile_hd_id)
  have "hd (rev v) = last v" using vne by (simp add: hd_rev)
  with l vne have 2: "dropWhile py_isspace (rev v) = rev v"
    by (intro dropWhile_hd_id) simp_all
  have "py_strip v = v" using 1 2 by (simp add: py_strip_def)
  then show ?thesis by (simp add: v_def)
qed

lemma visit_file_entry:
  assumes "visit_file fs max_file_size_mb root f = Inr entries" and "e \<in> set entries"
  shows "content e \<noteq> [] \<and> \<not> py_isspace (hd (content e)) \<and> \<not> py_isspace (last (content e))
         \<and> py_strip (content e) = content e
         \<and> path e = os_path_join root f \<and> is_text_file f"
proof -
  have t: "is_text_file f" and r: "try_read fs max_file_size_mb (os_path_join root f) = Inr entries"
    using assms
    by (auto simp: visit_file_def Let_def print_then_def split: if_splits sum.splits option.splits)
  from r assms(2) obtain raw where "content e = py_strip raw" "py_strip raw \<noteq> []"
    "path e = os_path_join root f"
    by (auto simp: try_read_def Let_def print_then_def split: if_splits sum.splits option.splits)
  with t py_strip_ends [of raw] py_strip_idem [of raw] show ?thesis by simp
qed

lemma collect_Inr: "collect rs = Inr xs \<Longrightarrow> rs = map Inr xs"
proof (induction rs arbitrary: xs)
  case Nil
  then show ?case by simp
next
  case (Cons r rs)
  then show ?case by (cases r) (auto split: sum.splits)
qed

lemma is_text_file_iff:
  "is_text_file f \<longleftrightarrow> (\<forall>ext \<in> set BINARY_EXTENSIONS. \<not> endswith f ext)"
  by (simp add: is_text_file_def list_ex_iff)

lemma suffix_after_sep:
  assumes "c \<notin> set ext" and "suffix ext (x @ c # b)"
  shows "suffix ext b"
proof -
  from assms(2) have "suffix ext (c # b) \<or> (\<exists>xs'. suffix xs' x \<and> ext = xs' @ c # b)"
    by (auto simp: suffix_append)
  with assms(1) have "suffix ext (c # b)" by auto
  with assms(1) show ?thesis by (auto simp: suffix_Cons)
qed

lemma suffix_os_path_join:
  assumes "CHR ''/'' \<notin> set ext" and "suffix ext (os_path_join a b)"
  shows "suffix ext b"
proof -
  have "os_path_join a b = b \<or> (\<exists>x. os_path_join a b = x @ CHR ''/'' # b)"
  proof (cases "prefix ''/'' b \<or> a = []")
    case True
    then show ?thesis by (auto simp: os_path_join_def)
  next
    case False
    show ?thesis
    proof (cases "endswith a ''/''")
      case True
      then obtain x where "a = x @ ''/''" by (auto simp: endswith_def suffix_def)
      with False show ?thesis by (auto simp: os_path_join_def endswith_def)
    next
      case False
      with \<open>\<not> (prefix ''/'' b \<or> a = [])\<close> show ?thesis by (auto simp: os_path_join_def)
    qed
  qed
  with assms suffix_after_sep [OF assms(1)] show ?thesis by auto
qed

lemma slash_not_in_extensions: "\<forall>ext \<in> set BINARY_EXTENSIONS. CHR ''/'' \<notin> set ext"
  by (simp add: BINARY_EXTENSIONS_def)

text \<open>
  Claim C10, as stated, fails: the message for a missing \<open>repo_path\<close> is printed before
  the empty list is returned, outside any \<^verbatim>\<open>try\<close>. On a console that cannot encode the
  emoji the print raises, and the exception leaves the function.
\<close>

theorem extract_code_files_missing_repo_counterexample:
  "\<not> os_path_exists ascii_console_fs ''nowhere''
   \<and> extract_code_files ascii_console_fs ''nowhere'' 5 = Inl (Raised ''UnicodeEncodeError'')
   \<and> extract_code_files ascii_console_fs ''nowhere'' 5 \<noteq> Inr []"
  by (simp add: extract_code_files_def ascii_console_fs_def demo_fs_def print_then_def)

text \<open>
  Claim C10, amended. For every environment, \<open>repo_path\<close> and size limit, every entry of
  a list that \<open>extract_code_files\<close> returns has a content that is not empty and is
  whitespace-stripped (it starts and ends with a character that is not whitespace, and
  stripping it again changes nothing); its path is \<open>os.path.join(root, f)\<close> for a file
  name \<open>f\<close> of the walk that ends with none of the listed binary extensions, and the path
  ends with none of them either. When \<open>repo_path\<close> does not exist and the print of the
  message for it succeeds, the function returns the empty list.
\<close>

theorem extract_code_files_entries:
  "(\<forall>code_files. extract_code_files fs repo_path max_file_size_mb = Inr code_files \<longrightarrow>
      (\<forall>e \<in> set code_files.
         content e \<noteq> []
         \<and> \<not> py_isspace (hd (content e)) \<and> \<not> py_isspace (last (content e))
         \<and> py_strip (content e) = content e
         \<and> (\<forall>ext \<in> set BINARY_EXTENSIONS. \<not> endswith (path e) ext)
         \<and> (\<exists>(root, dirs, files) \<in> set (os_walk fs repo_path). \<exists>f \<in> set files.
               path e = os_path_join root f
               \<and> (\<forall>ext \<in> set BINARY_EXTENSIONS. \<not> endswith f ext))))
   \<and> (\<not> os_path_exists fs repo_path \<and> py_print fs (RepoMissing repo_path) = None \<longrightarrow>
        extract_code_files fs repo_path max_file_size_mb = Inr [])"
proof (intro conjI allI ballI impI)
  fix code_files e
  assume ret: "extract_code_files fs repo_path max_file_size_mb = Inr code_files"
    and e: "e \<in> set code_files"
  have "\<exists>root dirs files f entries. (root, dirs, files) \<in> set (os_walk fs repo_path)
          \<and> f \<in> set files \<and> visit_file fs max_file_size_mb root f = Inr entries
          \<and> e \<in> set entries"
  proof (cases "os_path_exists fs repo_path")
    case False
    with ret e show ?thesis
      by (auto simp: extract_code_files_def print_then_def split: option.splits)
  next
    case True
    with ret obtain appended where
      c: "collect (concat (map (\<lambda>(root, dirs, files).
                                  map (visit_file fs max_file_size_mb root) files)
                               (os_walk fs repo_path))) = Inr appended"
      and cf: "code_files = concat appended"
      by (auto simp: extract_code_files_def print_then_def Let_def
          split: sum.splits option.splits)
    from e cf obtain entries where en: "entries \<in> set appended" "e \<in> set entries" by auto
    from en(1) collect_Inr [OF c] have
      "Inr entries \<in> set (concat (map (\<lambda>(root, dirs, files).
                                  map (visit_file fs max_file_size_mb root) files)
                               (os_walk fs repo_path)))"
      by simp
    then obtain root dirs files f where "(root, dirs, files) \<in> set (os_walk fs repo_path)"
      "f \<in> set files" "visit_file fs max_file_size_mb root f = Inr entries"
      by auto
    with en(2) show ?thesis by blast
  qed
  then obtain root dirs files f entries where w: "(root, dirs, files) \<in> set (os_walk fs repo_path)"
    and f: "f \<in> set files" and v: "visit_file fs max_file_size_mb root f = Inr entries"
    and ee: "e \<in> set entries"
    by blast
  note r = visit_file_entry [OF v ee]
  from r show "content e \<noteq> []" by simp
  from r show "\<not> py_isspace (hd (content e))" by simp
  from r show "\<not> py_isspace (last (content e))" by simp
  from r show "py_strip (content e) = content e" by simp
  from r have pf: "path e = os_path_join root f"
    and nf: "\<forall>ext \<in> set BINARY_EXTENSIONS. \<not> endswith f ext"
    by (simp_all add: is_text_file_iff)
  from pf nf w f show "\<exists>(root, dirs, files) \<in> set (os_walk fs repo_path). \<exists>f \<in> set files.
            path e = os_path_join root f
            \<and> (\<forall>ext \<in> set BINARY_EXTENSIONS. \<not> endswith f ext)"
    by blast
  fix ext assume x: "ext \<in> set BINARY_EXTENSIONS"
  with slash_not_in_extensions have "CHR ''/'' \<notin> set ext" by blast
  from suffix_os_path_join [OF this] nf x pf show "\<not> endswith (path e) ext"
    by (auto simp: endswith_def)
next
  assume "\<not> os_path_exists fs repo_path \<and> py_print fs (RepoMissing repo_path) = None"
  then show "extract_code_files fs repo_path max_file_size_mb = Inr []"
    by (simp add: extract_code_files_def print_then_def)
qed

lemma demo_run:
  "extract_code_files demo_fs ''repo'' 5
     = Inr [\<lparr>path = ''repo/main.py'', content = ''x = 1''\<rparr>]"
  by code_simp

lemma demo_missing:
  "\<not> os_path_exists demo_fs ''nowhere'' \<and> py_print demo_fs (RepoMissing ''nowhere'') = None"
  by (simp add: demo_fs_def)

theorem extract_code_files_entries_witness:
  "extract_code_files demo_fs ''repo'' 5 = Inr [\<lparr>path = ''repo/main.py'', content = ''x = 1''\<rparr>]
   \<and> \<lparr>path = ''repo/main.py'', content = ''x = 1''\<rparr>
         \<in> set [\<lparr>path = ''repo/main.py'', content = ''x = 1''\<rparr>]
   \<and> content \<lparr>path = ''repo/main.py'', content = ''x = 1''\<rparr> \<noteq> []
   \<and> py_strip (content \<lparr>path = ''repo/main.py'', content = ''x = 1''\<rparr>) = ''x = 1''
   \<and> \<not> endswith (path \<lparr>path = ''repo/main.py'', content = ''x = 1''\<rparr>) ''.png''
   \<and> \<not> os_path_exists demo_fs ''nowhere''
   \<and> py_print demo_fs (RepoMissing ''nowhere'') = None
   \<and> extract_code_files demo_fs ''nowhere'' 5 = Inr []"
proof -
  have x: "''.png'' \<in> set BINARY_EXTENSIONS" by (simp add: BINARY_EXTENSIONS_def)
  show ?thesis
    using demo_run x demo_missing
      extract_code_files_entries [of demo_fs "''repo''" 5]
      extract_code_files_entries [of demo_fs "''nowhere''" 5]
    by auto
qed


section \<open>Properties of the matcher\<close>

lemma first_some_SomeD: "first_some f xs = Some y \<Longrightarrow> \<exists>x \<in> set xs. f x = Some y"
  by (induction xs) (auto split: option.splits)

lemma take_takeWhile_all:
  "n \<le> length (takeWhile P s) \<Longrightarrow> list_all P (take n s)"
proof -
  assume n: "n \<le> length (takeWhile P s)"
  have "take n s = take n (takeWhile P s @ dropWhile P s)" by simp
  also have "\<dots> = take n (takeWhile P s)" using n by (simp del: takeWhile_dropWhile_id)
  finally have "set (take n s) \<subseteq> set (takeWhile P s)" by (simp add: set_take_subset)
  then show ?thesis by (auto simp: list_all_iff dest: set_takeWhileD)
qed

lemma choices_sound:
  assumes "n \<in> set (choices a prev s)"
  shows "n \<le> length s \<and> atom_text a (take n s)"
proof (cases a)
  case (Lit l)
  with assms show ?thesis by (auto simp: prefix_def split: if_splits)
next
  case (One cs)
  with assms show ?thesis by (cases s) (auto split: if_splits)
next
  case (Star cs)
  with assms have "n \<le> length (takeWhile (in_charset cs) s)" by auto
  with Star show ?thesis
    using take_takeWhile_all [of n "in_charset cs" s] length_takeWhile_le [of "in_charset cs" s]
    by simp
next
  case (Plus cs)
  with assms have n: "n \<le> length (takeWhile (in_charset cs) s)" "0 < n" by auto
  then have "n \<le> length s" using length_takeWhile_le [of "in_charset cs" s] by simp
  with Plus n show ?thesis
    using take_takeWhile_all [of n "in_charset cs" s] by (cases s) auto
next
  case (Alt ls)
  with assms show ?thesis by (auto simp: prefix_def)
next
  case WordBoundary
  with assms show ?thesis by (auto split: if_splits)
qed

lemma re_match_sound:
  "re_match toks prev s = Some (caps, n) \<Longrightarrow> n \<le> length s \<and> group_texts toks caps"
proof (induction toks arbitrary: prev s caps n)
  case Nil
  then show ?case by (simp add: group_texts_def)
next
  case (Cons t ts)
  from Cons.prems obtain k where k: "k \<in> set (choices (atom_of t) prev s)"
    and r: "(case re_match ts (prev_after prev s k) (drop k s) of
               None \<Rightarrow> None
             | Some (caps', m) \<Rightarrow> Some ((if is_group t then [take k s] else []) @ caps', k + m))
            = Some (caps, n)"
    by (auto dest: first_some_SomeD)
  from r obtain caps' m where rm: "re_match ts (prev_after prev s k) (drop k s) = Some (caps', m)"
    and c: "caps = (if is_group t then [take k s] else []) @ caps'" and n: "n = k + m"
    by (auto split: option.splits)
  from Cons.IH [OF rm] have m: "m \<le> length (drop k s)" and g: "group_texts ts caps'" by simp_all
  from choices_sound [OF k] have kl: "k \<le> length s" and at: "atom_text (atom_of t) (take k s)"
    by simp_all
  from m kl n have "n \<le> length s" by simp
  moreover have "group_texts (t # ts) caps"
    using g at c by (simp add: group_texts_def)
  ultimately show ?case by simp
qed

lemma re_scan_None:
  "re_match toks prev s = None \<Longrightarrow>
   re_scan toks prev s = (case s of [] \<Rightarrow> [] | c # cs \<Rightarrow> re_scan toks (Some c) cs)"
  by (subst re_scan.simps) simp

lemma re_scan_advance:
  "re_match toks prev s = Some (caps, n) \<Longrightarrow> 0 < n \<Longrightarrow> n \<le> length s \<Longrightarrow>
   re_scan toks prev s = (caps, take n s) # re_scan toks (prev_after prev s n) (drop n s)"
  by (subst re_scan.simps) simp

lemma re_scan_empty:
  "re_match toks prev s = Some (caps, n) \<Longrightarrow> \<not> (0 < n \<and> n \<le> length s) \<Longrightarrow>
   re_scan toks prev s
     = (caps, []) # (case s of [] \<Rightarrow> [] | c # cs \<Rightarrow> re_scan toks (Some c) cs)"
  by (subst re_scan.simps) auto

lemma re_scan_sound:
  "(caps, whole) \<in> set (re_scan toks prev s) \<Longrightarrow> group_texts toks caps"
proof (induction s arbitrary: prev rule: length_induct)
  case (1 s)
  note IH = "1.IH" [rule_format]
  have tail: "group_texts toks caps"
    if "(caps, whole) \<in> set (case s of [] \<Rightarrow> [] | c # cs \<Rightarrow> re_scan toks (Some c) cs)"
    using that IH by (cases s) auto
  show ?case
  proof (cases "re_match toks prev s")
    case None
    with "1.prems" tail show ?thesis by (simp add: re_scan_None)
  next
    case (Some r)
    obtain caps' n where r: "r = (caps', n)" by (cases r)
    from Some r re_match_sound have g: "group_texts toks caps'" by blast
    show ?thesis
    proof (cases "0 < n \<and> n \<le> length s")
      case True
      then have "length s - n < length s" by arith
      then have "length (drop n s) < length s" by simp
      from IH [OF this] "1.prems" Some r g True show ?thesis
        by (auto simp: re_scan_advance)
    next
      case False
      with "1.prems" Some r g tail show ?thesis
        by (auto simp: re_scan_empty)
    qed
  qed
qed

lemma re_findall_sound:
  "m \<in> set (re_findall toks s) \<Longrightarrow> \<exists>caps whole. m = shape (caps, whole) \<and> group_texts toks caps"
  by (auto simp: re_findall_def dest: re_scan_sound)

text \<open>
  A match of one of the source's patterns is never empty, so the scan never takes the
  branch for an empty match.
\<close>

lemma choices_min: "n \<in> set (choices a prev s) \<Longrightarrow> atom_min a \<le> n"
  by (cases a) (auto split: if_splits list.splits)

lemma re_match_min:
  "re_match toks prev s = Some (caps, n) \<Longrightarrow> sum_list (map (atom_min \<circ> atom_of) toks) \<le> n"
proof (induction toks arbitrary: prev s caps n)
  case Nil
  then show ?case by simp
next
  case (Cons t ts)
  from Cons.prems obtain k where k: "k \<in> set (choices (atom_of t) prev s)"
    and r: "(case re_match ts (prev_after prev s k) (drop k s) of
               None \<Rightarrow> None
             | Some (caps', m) \<Rightarrow> Some ((if is_group t then [take k s] else []) @ caps', k + m))
            = Some (caps, n)"
    by (auto dest: first_some_SomeD)
  from r obtain caps' m where rm: "re_match ts (prev_after prev s k) (drop k s) = Some (caps', m)"
    and n: "n = k + m"
    by (auto split: option.splits)
  from Cons.IH [OF rm] choices_min [OF k] n show ?case by simp
qed

lemma patterns_consume:
  assumes "(p, f) \<in> set patterns" and "re_match p prev s = Some (caps, n)"
  shows "0 < n"
proof -
  from assms(1) have "0 < sum_list (map (atom_min \<circ> atom_of) p)"
    by (auto simp: patterns_def py_pattern_def js_backend_pattern_def axios_pattern_def
        fetch_pattern_def java_pattern_def go_pattern_def ruby_pattern_def php_pattern_def
        quoted_path_def quote_def)
  with re_match_min [OF assms(2)] show ?thesis by simp
qed


section \<open>Properties of endpoint extraction\<close>

text \<open>
  \<^verbatim>\<open>sorted(list(set(endpoints)))\<close> is the same list for every order in which the set lists
  its elements.
\<close>

lemma sorted_listing_unique:
  fixes xs :: "'a::linorder list"
  shows "distinct ys \<Longrightarrow> set ys = set xs \<Longrightarrow> sort ys = sort (remdups xs)"
  by (rule sorted_distinct_set_unique) simp_all

lemma endpoint_formI:
  "m \<in> set METHODS \<Longrightarrow> p \<noteq> [] \<Longrightarrow> list_all (in_charset (NoneOf quotes)) p \<Longrightarrow>
   endpoint_form (m @ '' '' @ p)"
  unfolding endpoint_form_def
  by (rule exI [of _ m], rule exI [of _ p]) (auto simp: list_all_iff)

lemma in_set_map_eq: "map f xs = ys \<Longrightarrow> a \<in> set xs \<Longrightarrow> f a \<in> set ys"
  by auto

lemma upper_methods: "a \<in> set methods \<Longrightarrow> py_upper a \<in> set METHODS"
proof -
  have "map py_upper methods = METHODS" by code_simp
  then show "a \<in> set methods \<Longrightarrow> py_upper a \<in> set METHODS" by (rule in_set_map_eq)
qed

lemma upper_go_methods: "a \<in> set METHODS \<Longrightarrow> py_upper a \<in> set METHODS"
proof -
  have "map py_upper METHODS = METHODS" by code_simp
  then show "a \<in> set METHODS \<Longrightarrow> py_upper a \<in> set METHODS" by (rule in_set_map_eq)
qed

lemma upper_java_methods:
  "a \<in> set mappings \<Longrightarrow> py_upper (str_replace ''Mapping'' [] a) \<in> set METHODS"
proof -
  have "map (\<lambda>a. py_upper (str_replace ''Mapping'' [] a)) mappings = METHODS" by code_simp
  then show "a \<in> set mappings \<Longrightarrow> py_upper (str_replace ''Mapping'' [] a) \<in> set METHODS"
    by (rule in_set_map_eq [where f = "\<lambda>a. py_upper (str_replace ''Mapping'' [] a)"])
qed

lemma group_texts_2:
  "filter is_group toks = [Group a1, Group a2] \<Longrightarrow> group_texts toks caps \<Longrightarrow>
   \<exists>c1 c2. caps = [c1, c2] \<and> atom_text a1 c1 \<and> atom_text a2 c2"
  by (auto simp: group_texts_def list_all2_Cons1)

lemma group_texts_1:
  "filter is_group toks = [Group a1] \<Longrightarrow> group_texts toks caps \<Longrightarrow>
   \<exists>c1. caps = [c1] \<and> atom_text a1 c1"
  by (auto simp: group_texts_def list_all2_Cons1)

lemma group_texts_3:
  "filter is_group toks = [Group a1, Group a2, Group a3] \<Longrightarrow> group_texts toks caps \<Longrightarrow>
   \<exists>c1 c2 c3. caps = [c1, c2, c3] \<and> atom_text a1 c1 \<and> atom_text a2 c2 \<and> atom_text a3 c3"
  by (auto simp: group_texts_def list_all2_Cons1)

lemma method_path_ok:
  assumes g: "filter is_group toks = [Group (Alt methods), Group (Plus (NoneOf quotes))]"
    and m: "m \<in> set (re_findall toks s)"
  shows "\<exists>e. method_path m = Inr e \<and> endpoint_form e"
proof -
  from re_findall_sound [OF m] obtain caps whole where
    s: "m = shape (caps, whole)" and t: "group_texts toks caps" by blast
  from group_texts_2 [OF g t] obtain a b where c: "caps = [a, b]"
    and a: "a \<in> set methods" and b: "b \<noteq> []" "list_all (in_charset (NoneOf quotes)) b"
    by auto
  have "method_path m = Inr (py_upper a @ '' '' @ b)"
    using s c by (simp add: method_path_def)
  with endpoint_formI [OF upper_methods [OF a] b] show ?thesis by simp
qed

lemma fetch_get_ok:
  assumes m: "m \<in> set (re_findall fetch_pattern s)"
  shows "\<exists>e. fetch_get m = Inr e \<and> endpoint_form e"
proof -
  have g: "filter is_group fetch_pattern = [Group (Plus (NoneOf quotes))]"
    by (simp add: fetch_pattern_def quoted_path_def quote_def)
  from re_findall_sound [OF m] obtain caps whole where
    s: "m = shape (caps, whole)" and t: "group_texts fetch_pattern caps" by blast
  from group_texts_1 [OF g t] obtain b where c: "caps = [b]"
    and b: "b \<noteq> []" "list_all (in_charset (NoneOf quotes)) b"
    by auto
  from b have b0: "list_all (in_charset (NoneOf quotes)) [b ! 0]"
    by (cases b) auto
  have "fetch_get m = Inr (''GET'' @ '' '' @ [b ! 0])"
    using s c b by (simp add: fetch_get_def)
  moreover have "endpoint_form (''GET'' @ '' '' @ [b ! 0])"
    by (rule endpoint_formI) (use b0 in \<open>simp_all add: METHODS_def\<close>)
  ultimately show ?thesis by simp
qed

lemma java_mapping_ok:
  assumes m: "m \<in> set (re_findall java_pattern s)"
  shows "\<exists>e. java_mapping m = Inr e \<and> endpoint_form e"
proof -
  have g: "filter is_group java_pattern =
      [Group (Alt mappings), Group (Plus (NoneOf quotes))]"
    by (simp add: java_pattern_def quoted_path_def quote_def)
  from re_findall_sound [OF m] obtain caps whole where
    s: "m = shape (caps, whole)" and t: "group_texts java_pattern caps" by blast
  from group_texts_2 [OF g t] obtain a b where c: "caps = [a, b]"
    and a: "a \<in> set mappings"
    and b: "b \<noteq> []" "list_all (in_charset (NoneOf quotes)) b"
    by auto
  have "java_mapping m = Inr (py_upper (str_replace ''Mapping'' [] a) @ '' '' @ b)"
    using s c by (simp add: java_mapping_def)
  with endpoint_formI [OF upper_java_methods [OF a] b] show ?thesis by simp
qed

lemma go_route_ok:
  assumes m: "m \<in> set (re_findall go_pattern s)"
  shows "\<exists>e. go_route m = Inr e \<and> endpoint_form e"
proof -
  have g: "filter is_group go_pattern =
      [Group (Alt receivers), Group (Alt METHODS), Group (Plus (NoneOf quotes))]"
    by (simp add: go_pattern_def quoted_path_def quote_def)
  from re_findall_sound [OF m] obtain caps whole where
    s: "m = shape (caps, whole)" and t: "group_texts go_pattern caps" by blast
  from group_texts_3 [OF g t] obtain r a b where c: "caps = [r, a, b]"
    and a: "a \<in> set METHODS"
    and b: "b \<noteq> []" "list_all (in_charset (NoneOf quotes)) b"
    by auto
  have "go_route m = Inr (py_upper a @ '' '' @ b)"
    using s c by (simp add: go_route_def)
  with endpoint_formI [OF upper_go_methods [OF a] b] show ?thesis by simp
qed

lemma method_path_groups:
  "filter is_group py_pattern = [Group (Alt methods), Group (Plus (NoneOf quotes))]"
  "filter is_group js_backend_pattern = [Group (Alt methods), Group (Plus (NoneOf quotes))]"
  "filter is_group axios_pattern = [Group (Alt methods), Group (Plus (NoneOf quotes))]"
  "filter is_group ruby_pattern = [Group (Alt methods), Group (Plus (NoneOf quotes))]"
  "filter is_group php_pattern = [Group (Alt methods), Group (Plus (NoneOf quotes))]"
  by (simp_all add: py_pattern_def js_backend_pattern_def axios_pattern_def ruby_pattern_def
      php_pattern_def quoted_path_def quote_def)

lemma scan_code_ok:
  assumes "r \<in> set (scan_code code)"
  shows "\<exists>e. r = Inr e \<and> endpoint_form e"
  using assms method_path_groups
  unfolding scan_code_def patterns_def
  by (auto dest: method_path_ok fetch_get_ok java_mapping_ok go_route_ok)

lemma collect_all_ok:
  "(\<forall>r \<in> set rs. \<exists>x. r = Inr x \<and> P x) \<Longrightarrow> \<exists>xs. collect rs = Inr xs \<and> (\<forall>x \<in> set xs. P x)"
proof (induction rs)
  case Nil
  then show ?case by simp
next
  case (Cons r rs)
  then obtain x where "r = Inr x" "P x" by auto
  moreover from Cons obtain xs where "collect rs = Inr xs" "\<forall>x \<in> set xs. P x" by auto
  ultimately show ?case by simp
qed

text \<open>
  Claim C9. For every list of code texts, \<open>extract_endpoints_from_code\<close> returns a list
  (it raises nothing) that is sorted in ascending lexicographic order and free of
  duplicates, and every element is an upper-case HTTP method (\<open>GET\<close>, \<open>POST\<close>, \<open>PUT\<close>,
  \<open>DELETE\<close> or \<open>PATCH\<close>), one space, and a path that is not empty and holds no quote
  character.
\<close>

theorem extract_endpoints_sorted_distinct_form:
  "\<exists>endpoints. extract_endpoints_from_code code_texts = Inr endpoints
     \<and> sorted endpoints \<and> distinct endpoints
     \<and> (\<forall>e \<in> set endpoints.
          \<exists>m p. e = m @ '' '' @ p \<and> m \<in> set [''GET'', ''POST'', ''PUT'', ''DELETE'', ''PATCH'']
                \<and> p \<noteq> [] \<and> set p \<inter> set quotes = {})"
proof -
  have "\<forall>r \<in> set (concat (map scan_code code_texts)). \<exists>e. r = Inr e \<and> endpoint_form e"
    by (auto dest: scan_code_ok)
  from collect_all_ok [OF this] obtain xs where
    c: "collect (concat (map scan_code code_texts)) = Inr xs" and f: "\<forall>x \<in> set xs. endpoint_form x"
    by blast
  have "extract_endpoints_from_code code_texts = Inr (sort (remdups xs))"
    using c by (simp add: extract_endpoints_from_code_def)
  moreover have "sorted (sort (remdups xs))" by simp
  moreover have "distinct (sort (remdups xs))" by simp
  moreover have "\<forall>e \<in> set (sort (remdups xs)).
          \<exists>m p. e = m @ '' '' @ p \<and> m \<in> set [''GET'', ''POST'', ''PUT'', ''DELETE'', ''PATCH'']
                \<and> p \<noteq> [] \<and> set p \<inter> set quotes = {}"
    using f by (simp add: endpoint_form_def METHODS_def)
  ultimately show ?thesis by blast
qed

lemma endpoints_run:
  "extract_endpoints_from_code [''@a.get(`/u`)'', ''fetch(`/v`) r.PUT(`/u`)'']
     = Inr [''GET /'', ''GET /u'', ''PUT /u'']"
  by code_simp

theorem extract_endpoints_sorted_distinct_form_witness:
  "extract_endpoints_from_code [''@a.get(`/u`)'', ''fetch(`/v`) r.PUT(`/u`)'']
     = Inr [''GET /'', ''GET /u'', ''PUT /u'']
   \<and> sorted [''GET /'', ''GET /u'', ''PUT /u''] \<and> distinct [''GET /'', ''GET /u'', ''PUT /u'']
   \<and> ''GET /u'' \<in> set [''GET /'', ''GET /u'', ''PUT /u'']
   \<and> ''GET /u'' = ''GET'' @ '' '' @ ''/u''"
  using endpoints_run
    extract_endpoints_sorted_distinct_form [of "[''@a.get(`/u`)'', ''fetch(`/v`) r.PUT(`/u`)'']"]
  by simp

end
